theory Spec2Isabelle
  imports Complex_Main
begin

section \<open>Arrays and the array operations the script uses\<close>

text \<open>
  The script works on two-dimensional numpy arrays of float64. An array is modelled as
  the list of its rows, and a float64 as a real number: rounding, overflow and the
  special values of IEEE arithmetic are outside the model, except for the one place
  where the script can produce them from finite inputs, the division at the end of
  \<open>getNewPosition_yellowPoint\<close> (see \<open>true_divide\<close>).
  An array of numpy is rectangular; a list of rows need not be, so the theorems state
  the shape of their inputs with \<open>has_shape\<close>.
\<close>

type_synonym ndarray = "real list list"

datatype error = LinAlgError | ValueError | IndexError

text \<open>What a call returns when it does not raise: an array of finite numbers, or an
  array whose entries are \<open>inf\<close> or \<open>nan\<close>.\<close>

datatype fparray = Finite ndarray | NonFinite

definition has_shape :: "nat \<Rightarrow> nat \<Rightarrow> ndarray \<Rightarrow> bool" where
  "has_shape m n A = (length A = m \<and> list_all (\<lambda>r. length r = n) A)"

definition ncols :: "ndarray \<Rightarrow> nat" where
  "ncols A = (case A of [] \<Rightarrow> 0 | r # _ \<Rightarrow> length r)"

definition column :: "nat \<Rightarrow> ndarray \<Rightarrow> real list" where
  "column j A = map (\<lambda>r. r ! j) A"

definition dot :: "real list \<Rightarrow> real list \<Rightarrow> real" where
  "dot u v = sum_list (map2 (*) u v)"

text \<open>The product of two arrays without any check of the shapes.\<close>

definition mat_mul :: "ndarray \<Rightarrow> ndarray \<Rightarrow> ndarray" where
  "mat_mul A B = map (\<lambda>r. map (\<lambda>j. dot r (column j B)) [0..<ncols B]) A"

text \<open>\<open>A @ B\<close> of numpy on two-dimensional arrays: a ValueError unless every row of
  \<open>A\<close> is as long as \<open>B\<close> has rows.\<close>

definition matmul :: "ndarray \<Rightarrow> ndarray \<Rightarrow> error + ndarray" where
  "matmul A B =
     (if list_all (\<lambda>r. length r = length B) A then Inr (mat_mul A B) else Inl ValueError)"

text \<open>\<open>np.block([[p], [1]])\<close>: the array \<open>p\<close> on top of the one-by-one block
  \<open>[[1]]\<close>; the blocks are joined along the rows, so \<open>p\<close> must have one column.\<close>

definition np_block :: "ndarray \<Rightarrow> error + ndarray" where
  "np_block p =
     (if list_all (\<lambda>r. length r = 1) p then Inr (p @ [[1]]) else Inl ValueError)"

text \<open>\<open>A[i]\<close> for a natural index: row \<open>i\<close>, or an IndexError.\<close>

definition getitem :: "ndarray \<Rightarrow> nat \<Rightarrow> error + real list" where
  "getitem A i = (if i < length A then Inr (A ! i) else Inl IndexError)"

text \<open>\<open>u / v\<close> on two rows of one array. Division of floats in numpy never raises:
  where the divisor is zero the entry is \<open>inf\<close> or \<open>nan\<close>, which is the result None
  here.\<close>

definition true_divide :: "real list \<Rightarrow> real list \<Rightarrow> real list option" where
  "true_divide u v = (if 0 \<in> set v then None else Some (map2 (/) u v))"

subsection \<open>The inverse of a matrix\<close>

text \<open>
  \<open>np.linalg.inv\<close> is library code. It is modelled by what it computes over the reals:
  a LinAlgError for an array that is not square or that is singular, and the inverse
  otherwise, here as the adjugate divided by the determinant. The determinant is the
  expansion along the first row.
\<close>

definition del_col :: "nat \<Rightarrow> ndarray \<Rightarrow> ndarray" where
  "del_col j A = map (\<lambda>r. take j r @ drop (Suc j) r) A"

function det :: "ndarray \<Rightarrow> real" where
  "det [] = 1"
| "det (r # rs) = (\<Sum>j\<leftarrow>[0..<length r]. (- 1) ^ j * r ! j * det (del_col j rs))"
  by pat_completeness auto
termination
  by (relation "measure length") (auto simp: del_col_def)

definition minor :: "nat \<Rightarrow> nat \<Rightarrow> ndarray \<Rightarrow> ndarray" where
  "minor i j A = del_col j (take i A @ drop (Suc i) A)"

definition adjugate :: "ndarray \<Rightarrow> ndarray" where
  "adjugate A =
     map (\<lambda>i. map (\<lambda>j. (- 1) ^ (i + j) * det (minor j i A)) [0..<length A]) [0..<length A]"

definition mat_inverse :: "ndarray \<Rightarrow> ndarray" where
  "mat_inverse A = map (map (\<lambda>c. c / det A)) (adjugate A)"

definition linalg_inv :: "ndarray \<Rightarrow> error + ndarray" where
  "linalg_inv A =
     (if \<not> has_shape (length A) (length A) A then Inl LinAlgError
      else if det A = 0 then Inl LinAlgError
      else Inr (mat_inverse A))"

section \<open>The functions of the script\<close>

definition RotationAboutY :: "real \<Rightarrow> ndarray" where
  "RotationAboutY theta =
     [[cos theta, 0, sin theta, 0],
      [0, 1, 0, 0],
      [- sin theta, 0, cos theta, 0],
      [0, 0, 0, 1]]"

text \<open>\<open>np.array([x, y, z])\<close> on the three rows that the divisions return.\<close>

definition np_array3 ::
  "real list option \<Rightarrow> real list option \<Rightarrow> real list option \<Rightarrow> fparray" where
  "np_array3 x y z =
     (case (x, y, z) of (Some u, Some v, Some w) \<Rightarrow> Finite [u, v, w] | _ \<Rightarrow> NonFinite)"

text \<open>Statements run in sequence; the first exception ends the call.\<close>

definition and_then :: "error + 'a \<Rightarrow> ('a \<Rightarrow> error + 'b) \<Rightarrow> error + 'b" where
  "and_then m f = (case m of Inl e \<Rightarrow> Inl e | Inr x \<Rightarrow> f x)"

definition getNewPosition_yellowPoint :: "ndarray \<Rightarrow> real \<Rightarrow> ndarray \<Rightarrow> error + fparray" where
  "getNewPosition_yellowPoint p angle T_01 =
     and_then (np_block p) (\<lambda>p_tilde.
     let R_y = RotationAboutY angle in
     and_then (linalg_inv T_01) (\<lambda>T_10.
     and_then (matmul T_01 R_y) (\<lambda>T_01_R_y.
     and_then (matmul T_01_R_y T_10) (\<lambda>T_Motion.
     and_then (matmul T_Motion p_tilde) (\<lambda>q.
     and_then (getitem q 0) (\<lambda>q0.
     and_then (getitem q 3) (\<lambda>q3.
     and_then (getitem q 1) (\<lambda>q1.
     and_then (getitem q 2) (\<lambda>q2.
       Inr (np_array3 (true_divide q0 q3) (true_divide q1 q3) (true_divide q2 q3)))))))))))"

text \<open>The timer callback \<open>loop_func\<close> replaces the global \<open>p\<close> by its new position at
  every tick; \<open>theta\<close> and \<open>T_01\<close> are globals that never change. Rendering and the
  video frame are left out. An exception ends the run; an array of \<open>inf\<close> or \<open>nan\<close>
  stays one at every later tick.\<close>

fun loop_func :: "nat \<Rightarrow> real \<Rightarrow> ndarray \<Rightarrow> ndarray \<Rightarrow> error + fparray" where
  "loop_func 0 theta T_01 p = Inr (Finite p)"
| "loop_func (Suc n) theta T_01 p =
     (case getNewPosition_yellowPoint p theta T_01 of
        Inl e \<Rightarrow> Inl e
      | Inr NonFinite \<Rightarrow> Inr NonFinite
      | Inr (Finite p') \<Rightarrow> loop_func n theta T_01 p')"

text \<open>The globals of the script: the start position, the pose, and the step.\<close>

definition p_start :: ndarray where
  "p_start = [[- 30], [- 10], [- 20]]"

definition T_01_script :: ndarray where
  "T_01_script =
     [[1, 0, 0, - 40],
      [0, 1, 0, 0],
      [0, 0, 1, - 20],
      [0, 0, 0, 1]]"

definition theta_script :: real where
  "theta_script = pi / 20"

section \<open>The vocabulary of the specification\<close>

text \<open>
  The definitions of this section follow the words of the specification, not the code:
  the identity matrices, homogeneous coordinates, a rigid pose, and the pipeline that
  the specification gives as the contract of the rotation.
\<close>

definition identity3 :: ndarray where
  "identity3 = [[1, 0, 0], [0, 1, 0], [0, 0, 1]]"

definition identity4 :: ndarray where
  "identity4 = [[1, 0, 0, 0], [0, 1, 0, 0], [0, 0, 1, 0], [0, 0, 0, 1]]"

definition rotation_block :: "ndarray \<Rightarrow> ndarray" where
  "rotation_block T = map (take 3) (take 3 T)"

text \<open>A pose whose last row is \<open>[0, 0, 0, 1]\<close>.\<close>

definition affine_pose :: "ndarray \<Rightarrow> bool" where
  "affine_pose T = (has_shape 4 4 T \<and> T ! 3 = [0, 0, 0, 1])"

text \<open>A rigid pose: the last row is \<open>[0, 0, 0, 1]\<close> and the upper-left three-by-three
  block is orthonormal.\<close>

definition rigid_pose :: "ndarray \<Rightarrow> bool" where
  "rigid_pose T =
     (has_shape 4 4 T \<and> T ! 3 = [0, 0, 0, 1] \<and>
      mat_mul (rotation_block T) (transpose (rotation_block T)) = identity3)"

definition to_homogeneous :: "ndarray \<Rightarrow> ndarray" where
  "to_homogeneous p = p @ [[1]]"

text \<open>From homogeneous to Cartesian coordinates: the first three components divided by
  the fourth, in the arithmetic of floats.\<close>

definition from_homogeneous :: "ndarray \<Rightarrow> fparray" where
  "from_homogeneous q =
     (if q ! 3 ! 0 = 0 then NonFinite
      else Finite [[q ! 0 ! 0 / q ! 3 ! 0], [q ! 1 ! 0 / q ! 3 ! 0], [q ! 2 ! 0 / q ! 3 ! 0]])"

text \<open>The matrix of the motion: the pose, times the rotation, times the inverse of the
  pose.\<close>

definition T_Motion :: "ndarray \<Rightarrow> real \<Rightarrow> ndarray" where
  "T_Motion T_01 angle = mat_mul (mat_mul T_01 (RotationAboutY angle)) (mat_inverse T_01)"

text \<open>The pipeline as the claim words it: the point in homogeneous coordinates, multiplied
  by the matrix of the motion, then divided by its fourth component.\<close>

definition conjugation_pipeline :: "ndarray \<Rightarrow> real \<Rightarrow> ndarray \<Rightarrow> fparray" where
  "conjugation_pipeline p angle pose =
     from_homogeneous (mat_mul (T_Motion pose angle) (to_homogeneous p))"

text \<open>The contract as the specification words it: the point is taken to the local frame
  by the inverse of the pose, rotated there, taken back by the pose, and then converted
  to Cartesian coordinates.\<close>

definition rotate_about_local_y :: "ndarray \<Rightarrow> real \<Rightarrow> ndarray \<Rightarrow> fparray" where
  "rotate_about_local_y point angle pose =
     (let local = mat_mul (mat_inverse pose) (to_homogeneous point);
          rotated = mat_mul (RotationAboutY angle) local;
          global = mat_mul pose rotated
      in from_homogeneous global)"

text \<open>A homogeneous transform applied to a point whose fourth component stays one.\<close>

definition apply_motion :: "ndarray \<Rightarrow> ndarray \<Rightarrow> ndarray" where
  "apply_motion M p = take 3 (mat_mul M (to_homogeneous p))"

text \<open>A call returned an array of finite numbers, each within \<open>tol\<close> of the expected
  one.\<close>

definition within_tol :: "real \<Rightarrow> ndarray \<Rightarrow> error + fparray \<Rightarrow> bool" where
  "within_tol tol expected res =
     (case res of
        Inr (Finite a) \<Rightarrow> list_all2 (list_all2 (\<lambda>x y. \<bar>x - y\<bar> \<le> tol)) a expected
      | _ \<Rightarrow> False)"

text \<open>A pose that scales by two: invertible, and not rigid.\<close>

definition scaling_pose :: ndarray where
  "scaling_pose = [[2, 0, 0, 0], [0, 2, 0, 0], [0, 0, 2, 0], [0, 0, 0, 1]]"

definition zero_pose :: ndarray where
  "zero_pose = [[0, 0, 0, 0], [0, 0, 0, 0], [0, 0, 0, 0], [0, 0, 0, 0]]"

section \<open>Four-by-four matrices\<close>

lemma length4_cases: "length xs = 4 \<Longrightarrow> \<exists>a b c d. xs = [a, b, c, d]"
  by (auto simp: numeral_eq_Suc length_Suc_conv)

lemma shape44_cases:
  assumes "has_shape 4 4 A"
  shows "\<exists>a0 a1 a2 a3 b0 b1 b2 b3 c0 c1 c2 c3 d0 d1 d2 d3.
     A = [[a0, a1, a2, a3], [b0, b1, b2, b3], [c0, c1, c2, c3], [d0, d1, d2, d3]]"
proof -
  from assms obtain r0 r1 r2 r3 where A: "A = [r0, r1, r2, r3]"
    using length4_cases unfolding has_shape_def by blast
  with assms have "length r0 = 4" "length r1 = 4" "length r2 = 4" "length r3 = 4"
    by (simp_all add: has_shape_def)
  then show ?thesis using A by (metis length4_cases)
qed

lemma det3: "det [[a0, a1, a2], [b0, b1, b2], [c0, c1, c2]] =
   a0 * (b1 * c2 - b2 * c1) - a1 * (b0 * c2 - b2 * c0) + a2 * (b0 * c1 - b1 * c0)"
  by (simp add: del_col_def algebra_simps)

lemma det4: "det [[a0, a1, a2, a3], [b0, b1, b2, b3], [c0, c1, c2, c3], [d0, d1, d2, d3]] =
   a0 * det [[b1, b2, b3], [c1, c2, c3], [d1, d2, d3]]
 - a1 * det [[b0, b2, b3], [c0, c2, c3], [d0, d2, d3]]
 + a2 * det [[b0, b1, b3], [c0, c1, c3], [d0, d1, d3]]
 - a3 * det [[b0, b1, b2], [c0, c1, c2], [d0, d1, d2]]"
  by (simp add: del_col_def)

lemmas mat_simps = mat_mul_def ncols_def column_def dot_def

lemma shape41_cases:
  assumes "has_shape 4 1 v"
  shows "\<exists>x y z w. v = [[x], [y], [z], [w]]"
proof -
  from assms obtain r0 r1 r2 r3 where v: "v = [r0, r1, r2, r3]"
    using length4_cases unfolding has_shape_def by blast
  with assms have "length r0 = 1" "length r1 = 1" "length r2 = 1" "length r3 = 1"
    by (simp_all add: has_shape_def)
  then show ?thesis using v by (auto simp: length_Suc_conv)
qed

lemma shape31_cases:
  assumes "has_shape 3 1 v"
  shows "\<exists>x y z. v = [[x], [y], [z]]"
  using assms by (auto simp: has_shape_def numeral_eq_Suc length_Suc_conv)

lemma mat_mul_shape44:
  assumes "has_shape 4 4 A" "has_shape 4 4 B"
  shows "has_shape 4 4 (mat_mul A B)"
proof -
  from shape44_cases [OF assms(2)] obtain e0 e1 e2 e3 f0 f1 f2 f3 g0 g1 g2 g3 h0 h1 h2 h3
    where B: "B = [[e0, e1, e2, e3], [f0, f1, f2, f3], [g0, g1, g2, g3], [h0, h1, h2, h3]]"
    by blast
  show ?thesis using assms(1) by (simp add: B has_shape_def mat_mul_def ncols_def list_all_iff)
qed

lemma mat_mul_shape41:
  assumes "has_shape 4 4 A" "has_shape 4 1 v"
  shows "has_shape 4 1 (mat_mul A v)"
proof -
  from shape41_cases [OF assms(2)] obtain x y z w where "v = [[x], [y], [z], [w]]" by blast
  then show ?thesis using assms(1) by (simp add: has_shape_def mat_mul_def ncols_def list_all_iff)
qed

lemma mat_mul_assoc444:
  assumes "has_shape 4 4 A" "has_shape 4 4 B" "has_shape 4 4 C"
  shows "mat_mul (mat_mul A B) C = mat_mul A (mat_mul B C)"
proof -
  from shape44_cases [OF assms(1)] obtain a0 a1 a2 a3 b0 b1 b2 b3 c0 c1 c2 c3 d0 d1 d2 d3
    where A: "A = [[a0, a1, a2, a3], [b0, b1, b2, b3], [c0, c1, c2, c3], [d0, d1, d2, d3]]"
    by blast
  from shape44_cases [OF assms(2)] obtain e0 e1 e2 e3 f0 f1 f2 f3 g0 g1 g2 g3 h0 h1 h2 h3
    where B: "B = [[e0, e1, e2, e3], [f0, f1, f2, f3], [g0, g1, g2, g3], [h0, h1, h2, h3]]"
    by blast
  from shape44_cases [OF assms(3)] obtain i0 i1 i2 i3 j0 j1 j2 j3 k0 k1 k2 k3 l0 l1 l2 l3
    where C: "C = [[i0, i1, i2, i3], [j0, j1, j2, j3], [k0, k1, k2, k3], [l0, l1, l2, l3]]"
    by blast
  show ?thesis unfolding A B C by (simp add: mat_simps algebra_simps)
qed

lemma mat_mul_assoc441:
  assumes "has_shape 4 4 A" "has_shape 4 4 B" "has_shape 4 1 v"
  shows "mat_mul (mat_mul A B) v = mat_mul A (mat_mul B v)"
proof -
  from shape44_cases [OF assms(1)] obtain a0 a1 a2 a3 b0 b1 b2 b3 c0 c1 c2 c3 d0 d1 d2 d3
    where A: "A = [[a0, a1, a2, a3], [b0, b1, b2, b3], [c0, c1, c2, c3], [d0, d1, d2, d3]]"
    by blast
  from shape44_cases [OF assms(2)] obtain e0 e1 e2 e3 f0 f1 f2 f3 g0 g1 g2 g3 h0 h1 h2 h3
    where B: "B = [[e0, e1, e2, e3], [f0, f1, f2, f3], [g0, g1, g2, g3], [h0, h1, h2, h3]]"
    by blast
  from shape41_cases [OF assms(3)] obtain x y z w where v: "v = [[x], [y], [z], [w]]" by blast
  show ?thesis unfolding A B v by (simp add: mat_simps algebra_simps)
qed

lemma mat_mul_identity4_left:
  assumes "has_shape 4 4 A" shows "mat_mul identity4 A = A"
proof -
  from shape44_cases [OF assms(1)] obtain a0 a1 a2 a3 b0 b1 b2 b3 c0 c1 c2 c3 d0 d1 d2 d3
    where A: "A = [[a0, a1, a2, a3], [b0, b1, b2, b3], [c0, c1, c2, c3], [d0, d1, d2, d3]]"
    by blast
  show ?thesis unfolding A by (simp add: mat_simps identity4_def)
qed

lemma mat_mul_identity4_right:
  assumes "has_shape 4 4 A" shows "mat_mul A identity4 = A"
proof -
  from shape44_cases [OF assms(1)] obtain a0 a1 a2 a3 b0 b1 b2 b3 c0 c1 c2 c3 d0 d1 d2 d3
    where A: "A = [[a0, a1, a2, a3], [b0, b1, b2, b3], [c0, c1, c2, c3], [d0, d1, d2, d3]]"
    by blast
  show ?thesis unfolding A by (simp add: mat_simps identity4_def)
qed

lemma mat_mul_identity4_vec:
  assumes "has_shape 4 1 v" shows "mat_mul identity4 v = v"
proof -
  from shape41_cases [OF assms] obtain x y z w where v: "v = [[x], [y], [z], [w]]" by blast
  show ?thesis unfolding v by (simp add: mat_simps identity4_def)
qed

lemma adjugate4:
  "adjugate [[a0, a1, a2, a3], [b0, b1, b2, b3], [c0, c1, c2, c3], [d0, d1, d2, d3]] =
   [[det [[b1, b2, b3], [c1, c2, c3], [d1, d2, d3]],
     - det [[a1, a2, a3], [c1, c2, c3], [d1, d2, d3]],
     det [[a1, a2, a3], [b1, b2, b3], [d1, d2, d3]],
     - det [[a1, a2, a3], [b1, b2, b3], [c1, c2, c3]]],
    [- det [[b0, b2, b3], [c0, c2, c3], [d0, d2, d3]],
     det [[a0, a2, a3], [c0, c2, c3], [d0, d2, d3]],
     - det [[a0, a2, a3], [b0, b2, b3], [d0, d2, d3]],
     det [[a0, a2, a3], [b0, b2, b3], [c0, c2, c3]]],
    [det [[b0, b1, b3], [c0, c1, c3], [d0, d1, d3]],
     - det [[a0, a1, a3], [c0, c1, c3], [d0, d1, d3]],
     det [[a0, a1, a3], [b0, b1, b3], [d0, d1, d3]],
     - det [[a0, a1, a3], [b0, b1, b3], [c0, c1, c3]]],
    [- det [[b0, b1, b2], [c0, c1, c2], [d0, d1, d2]],
     det [[a0, a1, a2], [c0, c1, c2], [d0, d1, d2]],
     - det [[a0, a1, a2], [b0, b1, b2], [d0, d1, d2]],
     det [[a0, a1, a2], [b0, b1, b2], [c0, c1, c2]]]]"
  by (simp add: adjugate_def minor_def del_col_def del: det.simps)

lemma mat_mul_adjugate4:
  "mat_mul [[a0, a1, a2, a3], [b0, b1, b2, b3], [c0, c1, c2, c3], [d0, d1, d2, d3]]
     (adjugate [[a0, a1, a2, a3], [b0, b1, b2, b3], [c0, c1, c2, c3], [d0, d1, d2, d3]]) =
   map (map (\<lambda>c. det [[a0, a1, a2, a3], [b0, b1, b2, b3], [c0, c1, c2, c3], [d0, d1, d2, d3]] * c)) identity4"
  unfolding adjugate4 det4 det3 by (simp add: mat_simps identity4_def algebra_simps)

lemma adjugate4_mat_mul:
  "mat_mul (adjugate [[a0, a1, a2, a3], [b0, b1, b2, b3], [c0, c1, c2, c3], [d0, d1, d2, d3]])
     [[a0, a1, a2, a3], [b0, b1, b2, b3], [c0, c1, c2, c3], [d0, d1, d2, d3]] =
   map (map (\<lambda>c. det [[a0, a1, a2, a3], [b0, b1, b2, b3], [c0, c1, c2, c3], [d0, d1, d2, d3]] * c)) identity4"
  unfolding adjugate4 det4 det3 by (simp add: mat_simps identity4_def algebra_simps)

section \<open>The inverse and the rotation\<close>

lemma mat_inverse_shape44:
  assumes "has_shape 4 4 A" shows "has_shape 4 4 (mat_inverse A)"
  using assms by (simp add: mat_inverse_def adjugate_def has_shape_def list_all_iff)

lemma mat_mul_mat_inverse:
  assumes "has_shape 4 4 A" "det A \<noteq> 0"
  shows "mat_mul A (mat_inverse A) = identity4"
proof -
  from shape44_cases [OF assms(1)] obtain a0 a1 a2 a3 b0 b1 b2 b3 c0 c1 c2 c3 d0 d1 d2 d3
    where A: "A = [[a0, a1, a2, a3], [b0, b1, b2, b3], [c0, c1, c2, c3], [d0, d1, d2, d3]]"
    by blast
  obtain X where X: "adjugate A = X" by simp
  have sX: "has_shape 4 4 X" using X assms(1) by (auto simp: adjugate_def has_shape_def list_all_iff)
  from shape44_cases [OF sX] obtain e0 e1 e2 e3 f0 f1 f2 f3 g0 g1 g2 g3 h0 h1 h2 h3
    where Xe: "X = [[e0, e1, e2, e3], [f0, f1, f2, f3], [g0, g1, g2, g3], [h0, h1, h2, h3]]"
    by blast
  have "mat_mul A X = map (map (\<lambda>c. det A * c)) identity4"
    using mat_mul_adjugate4 [of a0 a1 a2 a3 b0 b1 b2 b3 c0 c1 c2 c3 d0 d1 d2 d3] X A by simp
  then have *: "mat_mul A X = [[det A, 0, 0, 0], [0, det A, 0, 0], [0, 0, det A, 0], [0, 0, 0, det A]]"
    by (simp add: identity4_def)
  have "mat_mul A (map (map (\<lambda>c. c / det A)) X) = map (map (\<lambda>c. c / det A)) (mat_mul A X)"
    unfolding A Xe by (simp add: mat_simps add_divide_distrib del: det.simps)
  then show ?thesis unfolding mat_inverse_def X * using assms(2) by (simp add: identity4_def del: det.simps)
qed

lemma mat_inverse_mat_mul:
  assumes "has_shape 4 4 A" "det A \<noteq> 0"
  shows "mat_mul (mat_inverse A) A = identity4"
proof -
  from shape44_cases [OF assms(1)] obtain a0 a1 a2 a3 b0 b1 b2 b3 c0 c1 c2 c3 d0 d1 d2 d3
    where A: "A = [[a0, a1, a2, a3], [b0, b1, b2, b3], [c0, c1, c2, c3], [d0, d1, d2, d3]]"
    by blast
  obtain X where X: "adjugate A = X" by simp
  have sX: "has_shape 4 4 X" using X assms(1) by (auto simp: adjugate_def has_shape_def list_all_iff)
  from shape44_cases [OF sX] obtain e0 e1 e2 e3 f0 f1 f2 f3 g0 g1 g2 g3 h0 h1 h2 h3
    where Xe: "X = [[e0, e1, e2, e3], [f0, f1, f2, f3], [g0, g1, g2, g3], [h0, h1, h2, h3]]"
    by blast
  have "mat_mul X A = map (map (\<lambda>c. det A * c)) identity4"
    using adjugate4_mat_mul [of a0 a1 a2 a3 b0 b1 b2 b3 c0 c1 c2 c3 d0 d1 d2 d3] X A by simp
  then have *: "mat_mul X A = [[det A, 0, 0, 0], [0, det A, 0, 0], [0, 0, det A, 0], [0, 0, 0, det A]]"
    by (simp add: identity4_def)
  have "mat_mul (map (map (\<lambda>c. c / det A)) X) A = map (map (\<lambda>c. c / det A)) (mat_mul X A)"
    unfolding A Xe by (simp add: mat_simps add_divide_distrib del: det.simps)
  then show ?thesis unfolding mat_inverse_def X * using assms(2) by (simp add: identity4_def del: det.simps)
qed

text \<open>The determinant is multiplicative, so a four-by-four matrix has an inverse exactly
  when its determinant is not zero: the arrays on which \<open>linalg_inv\<close> raises are the
  singular ones.\<close>

lemma det4_mult:
  "det (mat_mul [[a0, a1, a2, a3], [b0, b1, b2, b3], [c0, c1, c2, c3], [d0, d1, d2, d3]]
     [[e0, e1, e2, e3], [f0, f1, f2, f3], [g0, g1, g2, g3], [h0, h1, h2, h3]])
   = det [[a0, a1, a2, a3], [b0, b1, b2, b3], [c0, c1, c2, c3], [d0, d1, d2, d3]]
     * det [[e0, e1, e2, e3], [f0, f1, f2, f3], [g0, g1, g2, g3], [h0, h1, h2, h3]]"
  by (simp add: mat_simps det4 det3 del: det.simps) algebra

lemma det_identity4: "det identity4 = 1"
  unfolding identity4_def det4 det3 by simp

lemma det_mat_mul:
  assumes "has_shape 4 4 A" "has_shape 4 4 B"
  shows "det (mat_mul A B) = det A * det B"
proof -
  from shape44_cases [OF assms(1)] obtain a0 a1 a2 a3 b0 b1 b2 b3 c0 c1 c2 c3 d0 d1 d2 d3
    where A: "A = [[a0, a1, a2, a3], [b0, b1, b2, b3], [c0, c1, c2, c3], [d0, d1, d2, d3]]"
    by blast
  from shape44_cases [OF assms(2)] obtain e0 e1 e2 e3 f0 f1 f2 f3 g0 g1 g2 g3 h0 h1 h2 h3
    where B: "B = [[e0, e1, e2, e3], [f0, f1, f2, f3], [g0, g1, g2, g3], [h0, h1, h2, h3]]"
    by blast
  show ?thesis unfolding A B by (rule det4_mult)
qed

lemma det_zero_iff_no_inverse:
  assumes "has_shape 4 4 A"
  shows "det A = 0 \<longleftrightarrow> \<not> (\<exists>X. has_shape 4 4 X \<and> mat_mul A X = identity4)"
proof
  assume z: "det A = 0"
  show "\<not> (\<exists>X. has_shape 4 4 X \<and> mat_mul A X = identity4)"
  proof
    assume "\<exists>X. has_shape 4 4 X \<and> mat_mul A X = identity4"
    then obtain X where X: "has_shape 4 4 X" "mat_mul A X = identity4" by blast
    from det_mat_mul [OF assms X(1)] have "det A * det X = 1"
      by (simp add: X(2) det_identity4)
    with z show False by simp
  qed
next
  assume n: "\<not> (\<exists>X. has_shape 4 4 X \<and> mat_mul A X = identity4)"
  show "det A = 0"
  proof (rule ccontr)
    assume d: "det A \<noteq> 0"
    from mat_inverse_shape44 [OF assms] mat_mul_mat_inverse [OF assms d] n
    show False by blast
  qed
qed

lemma RotationAboutY_shape: "has_shape 4 4 (RotationAboutY a)"
  by (simp add: RotationAboutY_def has_shape_def)

lemma RotationAboutY_zero: "RotationAboutY 0 = identity4"
  by (simp add: RotationAboutY_def identity4_def)

lemma RotationAboutY_add: "mat_mul (RotationAboutY a) (RotationAboutY b) = RotationAboutY (a + b)"
  by (simp add: RotationAboutY_def mat_simps cos_add sin_add algebra_simps)

lemma to_homogeneous_shape: "has_shape 3 1 p \<Longrightarrow> has_shape 4 1 (to_homogeneous p)"
  by (simp add: has_shape_def to_homogeneous_def)

lemma divide_rows:
  assumes "has_shape 4 1 q"
  shows "and_then (getitem q 0) (\<lambda>q0.
     and_then (getitem q 3) (\<lambda>q3.
     and_then (getitem q 1) (\<lambda>q1.
     and_then (getitem q 2) (\<lambda>q2.
       Inr (np_array3 (true_divide q0 q3) (true_divide q1 q3) (true_divide q2 q3))))))
     = Inr (from_homogeneous q)"
proof -
  from shape41_cases [OF assms] obtain x y z w where q: "q = [[x], [y], [z], [w]]" by blast
  show ?thesis
    unfolding q
    by (simp add: and_then_def getitem_def true_divide_def np_array3_def from_homogeneous_def)
qed

lemma getNewPosition_yellowPoint_eq:
  assumes p: "has_shape 3 1 p" and T: "has_shape 4 4 T_01" and d: "det T_01 \<noteq> 0"
  shows "getNewPosition_yellowPoint p angle T_01 =
     Inr (from_homogeneous
       (mat_mul (mat_mul (mat_mul T_01 (RotationAboutY angle)) (mat_inverse T_01)) (to_homogeneous p)))"
proof -
  let ?R = "RotationAboutY angle"
  let ?X = "mat_inverse T_01"
  have b: "np_block p = Inr (to_homogeneous p)"
    using p by (simp add: np_block_def has_shape_def to_homogeneous_def)
  have i: "linalg_inv T_01 = Inr ?X"
    using T d by (simp add: linalg_inv_def has_shape_def)
  have lR: "length ?R = 4" by (simp add: RotationAboutY_def)
  have m1: "matmul T_01 ?R = Inr (mat_mul T_01 ?R)"
    using T by (simp add: matmul_def has_shape_def lR)
  have s1: "has_shape 4 4 (mat_mul T_01 ?R)"
    by (rule mat_mul_shape44 [OF T RotationAboutY_shape])
  have sX: "has_shape 4 4 ?X" by (rule mat_inverse_shape44 [OF T])
  have m2: "matmul (mat_mul T_01 ?R) ?X = Inr (mat_mul (mat_mul T_01 ?R) ?X)"
    using s1 sX by (simp add: matmul_def has_shape_def)
  have s2: "has_shape 4 4 (mat_mul (mat_mul T_01 ?R) ?X)"
    by (rule mat_mul_shape44 [OF s1 sX])
  have sp: "has_shape 4 1 (to_homogeneous p)" by (rule to_homogeneous_shape [OF p])
  have m3: "matmul (mat_mul (mat_mul T_01 ?R) ?X) (to_homogeneous p) =
      Inr (mat_mul (mat_mul (mat_mul T_01 ?R) ?X) (to_homogeneous p))"
    using s2 sp by (simp add: matmul_def has_shape_def)
  have s3: "has_shape 4 1 (mat_mul (mat_mul (mat_mul T_01 ?R) ?X) (to_homogeneous p))"
    by (rule mat_mul_shape41 [OF s2 sp])
  show ?thesis
    unfolding getNewPosition_yellowPoint_def b i m1 m2 m3 Let_def and_then_def sum.case
    by (rule divide_rows [OF s3, unfolded and_then_def])
qed

section \<open>Affine and rigid poses\<close>

lemma affine_cases:
  assumes "affine_pose T"
  shows "\<exists>a0 a1 a2 a3 b0 b1 b2 b3 c0 c1 c2 c3.
     T = [[a0, a1, a2, a3], [b0, b1, b2, b3], [c0, c1, c2, c3], [0, 0, 0, 1]]"
proof -
  from assms have "has_shape 4 4 T" by (simp add: affine_pose_def)
  from shape44_cases [OF this] obtain a0 a1 a2 a3 b0 b1 b2 b3 c0 c1 c2 c3 d0 d1 d2 d3
    where A: "T = [[a0, a1, a2, a3], [b0, b1, b2, b3], [c0, c1, c2, c3], [d0, d1, d2, d3]]"
    by blast
  with assms have "[d0, d1, d2, d3] = [0, 0, 0, 1]" by (simp add: affine_pose_def)
  with A show ?thesis by blast
qed

lemma det_affine:
  "det [[a0, a1, a2, a3], [b0, b1, b2, b3], [c0, c1, c2, c3], [0, 0, 0, 1]] =
   det [[a0, a1, a2], [b0, b1, b2], [c0, c1, c2]]"
  unfolding det4 det3 by (simp add: algebra_simps)

lemma det3_orthonormal:
  assumes "mat_mul [[a0, a1, a2], [b0, b1, b2], [c0, c1, c2]]
     (transpose [[a0, a1, a2], [b0, b1, b2], [c0, c1, c2]]) = identity3"
  shows "det [[a0, a1, a2], [b0, b1, b2], [c0, c1, c2]] \<noteq> 0"
proof -
  let ?R = "[[a0, a1, a2], [b0, b1, b2], [c0, c1, c2]]"
  have "det ?R * det ?R = det (mat_mul ?R (transpose ?R))"
    unfolding det3 by (simp add: mat_simps det3 del: det.simps) (simp add: algebra_simps)
  also have "\<dots> = 1" unfolding assms by (simp add: identity3_def del_col_def)
  finally show ?thesis by auto
qed

lemma rigid_affine: "rigid_pose T \<Longrightarrow> affine_pose T"
  by (simp add: rigid_pose_def affine_pose_def)

lemma rigid_det: assumes "rigid_pose T" shows "det T \<noteq> 0"
proof -
  from affine_cases [OF rigid_affine [OF assms]] obtain a0 a1 a2 a3 b0 b1 b2 b3 c0 c1 c2 c3
    where T: "T = [[a0, a1, a2, a3], [b0, b1, b2, b3], [c0, c1, c2, c3], [0, 0, 0, 1]]"
    by blast
  have R: "rotation_block T = [[a0, a1, a2], [b0, b1, b2], [c0, c1, c2]]"
    by (simp add: T rotation_block_def)
  from assms have "mat_mul (rotation_block T) (transpose (rotation_block T)) = identity3"
    by (simp add: rigid_pose_def)
  then have "det [[a0, a1, a2], [b0, b1, b2], [c0, c1, c2]] \<noteq> 0"
    unfolding R by (rule det3_orthonormal)
  then show ?thesis unfolding T det_affine .
qed

lemma T_Motion_shape: "has_shape 4 4 T \<Longrightarrow> has_shape 4 4 (T_Motion T a)"
  unfolding T_Motion_def
  by (intro mat_mul_shape44 RotationAboutY_shape mat_inverse_shape44)

lemma T_Motion_zero:
  assumes "has_shape 4 4 T" "det T \<noteq> 0"
  shows "T_Motion T 0 = identity4"
  unfolding T_Motion_def RotationAboutY_zero
  by (simp add: mat_mul_identity4_right [OF assms(1)] mat_mul_mat_inverse [OF assms])

lemma T_Motion_add:
  assumes T: "has_shape 4 4 T" and d: "det T \<noteq> 0"
  shows "mat_mul (T_Motion T a) (T_Motion T b) = T_Motion T (a + b)"
proof -
  let ?X = "mat_inverse T"
  note sX = mat_inverse_shape44 [OF T]
  note sR = RotationAboutY_shape
  note sTR = mat_mul_shape44 [OF T sR]
  have "mat_mul (T_Motion T a) (T_Motion T b) =
      mat_mul (mat_mul T (RotationAboutY a)) (mat_mul ?X (mat_mul (mat_mul T (RotationAboutY b)) ?X))"
    unfolding T_Motion_def
    by (rule mat_mul_assoc444 [OF sTR sX mat_mul_shape44 [OF sTR sX]])
  also have "mat_mul ?X (mat_mul (mat_mul T (RotationAboutY b)) ?X) =
      mat_mul (mat_mul ?X (mat_mul T (RotationAboutY b))) ?X"
    by (rule mat_mul_assoc444 [OF sX sTR sX, symmetric])
  also have "mat_mul ?X (mat_mul T (RotationAboutY b)) = mat_mul (mat_mul ?X T) (RotationAboutY b)"
    by (rule mat_mul_assoc444 [OF sX T sR, symmetric])
  also have "\<dots> = RotationAboutY b"
    by (simp add: mat_inverse_mat_mul [OF T d] mat_mul_identity4_left [OF sR])
  also have "mat_mul (mat_mul T (RotationAboutY a)) (mat_mul (RotationAboutY b) ?X) =
      mat_mul (mat_mul (mat_mul T (RotationAboutY a)) (RotationAboutY b)) ?X"
    by (rule mat_mul_assoc444 [OF sTR sR sX, symmetric])
  also have "mat_mul (mat_mul T (RotationAboutY a)) (RotationAboutY b) =
      mat_mul T (mat_mul (RotationAboutY a) (RotationAboutY b))"
    by (rule mat_mul_assoc444 [OF T sR sR])
  finally show ?thesis by (simp add: T_Motion_def RotationAboutY_add)
qed

lemma mat_inverse_affine:
  assumes "affine_pose T" "det T \<noteq> 0"
  shows "affine_pose (mat_inverse T)"
proof -
  from affine_cases [OF assms(1)] obtain a0 a1 a2 a3 b0 b1 b2 b3 c0 c1 c2 c3
    where T: "T = [[a0, a1, a2, a3], [b0, b1, b2, b3], [c0, c1, c2, c3], [0, 0, 0, 1]]"
    by blast
  have s: "has_shape 4 4 (mat_inverse T)"
    using assms(1) by (simp add: affine_pose_def mat_inverse_shape44)
  have "det [[a0, a1, a2], [b0, b1, b2], [c0, c1, c2]] \<noteq> 0"
    using assms(2) unfolding T det_affine .
  then have "mat_inverse T ! 3 = [0, 0, 0, 1]"
    unfolding mat_inverse_def T adjugate4 det_affine
    by (simp add: del_col_def)
  with s show ?thesis by (simp add: affine_pose_def)
qed

lemma mat_mul_affine:
  assumes "affine_pose A" "affine_pose B"
  shows "affine_pose (mat_mul A B)"
proof -
  from affine_cases [OF assms(1)] obtain a0 a1 a2 a3 b0 b1 b2 b3 c0 c1 c2 c3
    where A: "A = [[a0, a1, a2, a3], [b0, b1, b2, b3], [c0, c1, c2, c3], [0, 0, 0, 1]]"
    by blast
  from affine_cases [OF assms(2)] obtain e0 e1 e2 e3 f0 f1 f2 f3 g0 g1 g2 g3
    where B: "B = [[e0, e1, e2, e3], [f0, f1, f2, f3], [g0, g1, g2, g3], [0, 0, 0, 1]]"
    by blast
  have "has_shape 4 4 (mat_mul A B)"
    using assms by (simp add: affine_pose_def mat_mul_shape44)
  moreover have "mat_mul A B ! 3 = [0, 0, 0, 1]"
    unfolding A B by (simp add: mat_simps)
  ultimately show ?thesis by (simp add: affine_pose_def)
qed

lemma RotationAboutY_affine: "affine_pose (RotationAboutY a)"
  by (simp add: affine_pose_def RotationAboutY_def has_shape_def)

lemma T_Motion_affine:
  assumes "affine_pose T" "det T \<noteq> 0"
  shows "affine_pose (T_Motion T a)"
  unfolding T_Motion_def
  by (intro mat_mul_affine assms(1) RotationAboutY_affine mat_inverse_affine [OF assms])

lemma affine_apply:
  assumes "affine_pose M" "has_shape 3 1 p"
  shows "mat_mul M (to_homogeneous p) ! 3 = [1]"
    and "from_homogeneous (mat_mul M (to_homogeneous p)) = Finite (apply_motion M p)"
    and "to_homogeneous (apply_motion M p) = mat_mul M (to_homogeneous p)"
    and "has_shape 3 1 (apply_motion M p)"
proof -
  from affine_cases [OF assms(1)] obtain a0 a1 a2 a3 b0 b1 b2 b3 c0 c1 c2 c3
    where M: "M = [[a0, a1, a2, a3], [b0, b1, b2, b3], [c0, c1, c2, c3], [0, 0, 0, 1]]"
    by blast
  from shape31_cases [OF assms(2)] obtain x y z where p: "p = [[x], [y], [z]]" by blast
  show "mat_mul M (to_homogeneous p) ! 3 = [1]"
    unfolding M p by (simp add: mat_simps to_homogeneous_def)
  show "from_homogeneous (mat_mul M (to_homogeneous p)) = Finite (apply_motion M p)"
    unfolding M p by (simp add: mat_simps to_homogeneous_def from_homogeneous_def apply_motion_def)
  show "to_homogeneous (apply_motion M p) = mat_mul M (to_homogeneous p)"
    unfolding M p by (simp add: mat_simps to_homogeneous_def apply_motion_def)
  show "has_shape 3 1 (apply_motion M p)"
    unfolding M p by (simp add: mat_simps to_homogeneous_def apply_motion_def has_shape_def)
qed

lemma getNewPosition_affine:
  assumes T: "affine_pose T_01" and d: "det T_01 \<noteq> 0" and p: "has_shape 3 1 p"
  shows "getNewPosition_yellowPoint p angle T_01 = Inr (Finite (apply_motion (T_Motion T_01 angle) p))"
proof -
  have s: "has_shape 4 4 T_01" using T by (simp add: affine_pose_def)
  show ?thesis
    unfolding getNewPosition_yellowPoint_eq [OF p s d] T_Motion_def [symmetric]
    by (simp add: affine_apply(2) [OF T_Motion_affine [OF T d] p])
qed

lemma loop_func_affine:
  assumes T: "affine_pose T_01" and d: "det T_01 \<noteq> 0"
  shows "has_shape 3 1 p \<Longrightarrow>
    loop_func n theta T_01 p = Inr (Finite (apply_motion (T_Motion T_01 (real n * theta)) p))"
proof (induction n arbitrary: p)
  case 0
  have s: "has_shape 4 4 T_01" using T by (simp add: affine_pose_def)
  from shape31_cases [OF 0] obtain x y z where p: "p = [[x], [y], [z]]" by blast
  show ?case
    by (simp add: T_Motion_zero [OF s d]) (simp add: p apply_motion_def to_homogeneous_def identity4_def mat_simps)
next
  case (Suc n)
  have s: "has_shape 4 4 T_01" using T by (simp add: affine_pose_def)
  let ?M = "T_Motion T_01 theta"
  let ?p' = "apply_motion ?M p"
  note aM = T_Motion_affine [OF T d]
  have sp': "has_shape 3 1 ?p'" by (rule affine_apply(4) [OF aM Suc.prems])
  have "loop_func (Suc n) theta T_01 p = loop_func n theta T_01 ?p'"
    by (simp add: getNewPosition_affine [OF T d Suc.prems])
  also have "\<dots> = Inr (Finite (apply_motion (T_Motion T_01 (real n * theta)) ?p'))"
    by (rule Suc.IH [OF sp'])
  also have "apply_motion (T_Motion T_01 (real n * theta)) ?p' =
      take 3 (mat_mul (T_Motion T_01 (real n * theta)) (mat_mul ?M (to_homogeneous p)))"
    by (simp add: apply_motion_def [of "T_Motion T_01 (real n * theta)"] affine_apply(3) [OF aM Suc.prems])
  also have "mat_mul (T_Motion T_01 (real n * theta)) (mat_mul ?M (to_homogeneous p)) =
      mat_mul (mat_mul (T_Motion T_01 (real n * theta)) ?M) (to_homogeneous p)"
    by (rule mat_mul_assoc441 [OF T_Motion_shape [OF s] T_Motion_shape [OF s]
          to_homogeneous_shape [OF Suc.prems], symmetric])
  also have "mat_mul (T_Motion T_01 (real n * theta)) ?M = T_Motion T_01 (real (Suc n) * theta)"
    by (simp add: T_Motion_add [OF s d] algebra_simps)
  finally show ?case by (simp add: apply_motion_def)
qed

lemma RotationAboutY_periodic: "RotationAboutY (a + 2 * pi * of_int k) = RotationAboutY a"
  by (simp add: RotationAboutY_def cos_add sin_add)

section \<open>The globals of the script and two other poses\<close>

lemma p_start_shape: "has_shape 3 1 p_start"
  by (simp add: p_start_def has_shape_def)

lemma T_01_script_shape: "has_shape 4 4 T_01_script"
  by (simp add: T_01_script_def has_shape_def)

lemma T_01_script_det: "det T_01_script = 1"
  unfolding T_01_script_def det4 det3 by simp

lemma T_01_script_rigid: "rigid_pose T_01_script"
  by (simp add: rigid_pose_def T_01_script_def has_shape_def rotation_block_def identity3_def mat_simps)

lemma mat_inverse_T_01_script:
  "mat_inverse T_01_script = [[1, 0, 0, 40], [0, 1, 0, 0], [0, 0, 1, 20], [0, 0, 0, 1]]"
  unfolding mat_inverse_def T_01_script_det unfolding T_01_script_def adjugate4 det3 by simp

lemma T_Motion_script:
  "T_Motion T_01_script a =
    [[cos a, 0, sin a, 40 * cos a + 20 * sin a - 40],
     [0, 1, 0, 0],
     [- sin a, 0, cos a, 20 * cos a - 40 * sin a - 20],
     [0, 0, 0, 1]]"
  unfolding T_Motion_def mat_inverse_T_01_script
  by (simp add: T_01_script_def RotationAboutY_def mat_simps)

lemma script_step:
  "getNewPosition_yellowPoint p_start a T_01_script =
     Inr (Finite [[10 * cos a - 40], [- 10], [- 10 * sin a - 20]])"
proof -
  have d: "det T_01_script \<noteq> 0" by (simp add: T_01_script_det)
  show ?thesis
    unfolding getNewPosition_affine [OF rigid_affine [OF T_01_script_rigid] d p_start_shape]
      T_Motion_script
    by (simp add: apply_motion_def to_homogeneous_def p_start_def mat_simps)
qed

lemma det_RotationAboutY: "det (RotationAboutY theta) = 1"
proof -
  have "cos theta * cos theta + sin theta * sin theta = 1"
    using sin_cos_squared_add3 [of theta] by (simp add: add.commute)
  then show ?thesis
    unfolding RotationAboutY_def det4 det3 by simp
qed

lemma mat_inverse_RotationAboutY: "mat_inverse (RotationAboutY theta) = RotationAboutY (- theta)"
proof -
  have "mat_mul (RotationAboutY (- theta)) (mat_mul (RotationAboutY theta) (mat_inverse (RotationAboutY theta)))
      = mat_mul (mat_mul (RotationAboutY (- theta)) (RotationAboutY theta)) (mat_inverse (RotationAboutY theta))"
    by (rule mat_mul_assoc444 [OF RotationAboutY_shape RotationAboutY_shape
          mat_inverse_shape44 [OF RotationAboutY_shape], symmetric])
  then show ?thesis
    by (simp add: mat_mul_mat_inverse [OF RotationAboutY_shape] det_RotationAboutY
        RotationAboutY_add RotationAboutY_zero
        mat_mul_identity4_right [OF RotationAboutY_shape]
        mat_mul_identity4_left [OF mat_inverse_shape44 [OF RotationAboutY_shape]])
qed

lemma scaling_pose_shape: "has_shape 4 4 scaling_pose"
  by (simp add: scaling_pose_def has_shape_def)

lemma scaling_pose_det: "det scaling_pose = 8"
  unfolding scaling_pose_def det4 det3 by simp

lemma scaling_pose_not_rigid: "\<not> rigid_pose scaling_pose"
  by (simp add: rigid_pose_def scaling_pose_def rotation_block_def identity3_def mat_simps)

lemma scaling_pose_affine: "affine_pose scaling_pose"
  by (simp add: affine_pose_def scaling_pose_def has_shape_def)

lemma scaling_pose_step:
  "getNewPosition_yellowPoint p_start 0 scaling_pose = Inr (Finite p_start)"
proof -
  have d: "det scaling_pose \<noteq> 0" by (simp add: scaling_pose_det)
  have "T_Motion scaling_pose 0 = identity4"
    by (rule T_Motion_zero [OF scaling_pose_shape d])
  then show ?thesis
    unfolding getNewPosition_affine [OF scaling_pose_affine d p_start_shape]
    by (simp add: apply_motion_def to_homogeneous_def p_start_def identity4_def mat_simps)
qed

lemma zero_pose_det: "det zero_pose = 0"
  unfolding zero_pose_def det4 det3 by simp

section \<open>Bounds on the sine and cosine of the step\<close>

text \<open>The bounds come from the Maclaurin polynomials of sine and cosine, and the bounds
  on \<open>pi\<close> from \<open>sin (pi / 6) = 1 / 2\<close>.\<close>

lemma sin_coeff_values:
  "sin_coeff 1 = 1" "sin_coeff (Suc 0) = 1" "sin_coeff 2 = 0" "sin_coeff 3 = - 1 / 6"
  "sin_coeff 4 = 0"
  by (simp_all add: sin_coeff_def fact_numeral)

lemma cos_coeff_values:
  "cos_coeff 1 = 0" "cos_coeff (Suc 0) = 0" "cos_coeff 2 = - 1 / 2" "cos_coeff 3 = 0"
  by (simp_all add: cos_coeff_def fact_numeral)

lemma sin_taylor3: "\<bar>sin x - x\<bar> \<le> \<bar>x\<bar> ^ 3 / 6" for x :: real
  using Maclaurin_sin_bound [of x 3]
  by (simp add: sin_coeff_def eval_nat_numeral fact_numeral divide_simps)

lemma sin_taylor5: "\<bar>sin x - (x - x ^ 3 / 6)\<bar> \<le> \<bar>x\<bar> ^ 5 / 120" for x :: real
proof -
  have "(\<Sum>m<5. sin_coeff m * x ^ m) =
      sin_coeff 0 * x ^ 0 + sin_coeff 1 * x ^ 1 + sin_coeff 2 * x ^ 2 + sin_coeff 3 * x ^ 3
      + sin_coeff 4 * x ^ 4"
    by (simp add: eval_nat_numeral)
  then have s: "(\<Sum>m<5. sin_coeff m * x ^ m) = x - x ^ 3 / 6"
    by (simp add: sin_coeff_values)
  show ?thesis
    using Maclaurin_sin_bound [of x 5] unfolding s by (simp add: fact_numeral divide_simps)
qed

lemma cos_taylor4: "\<bar>cos x - (1 - x ^ 2 / 2)\<bar> \<le> \<bar>x\<bar> ^ 4 / 24" for x :: real
proof -
  from Maclaurin_cos_expansion [of x 4] obtain t where
    c: "cos x = (\<Sum>m<4. cos_coeff m * x ^ m) + (cos (t + 1/2 * real 4 * pi) / fact 4) * x ^ 4"
    by blast
  have "(\<Sum>m<4. cos_coeff m * x ^ m) =
      cos_coeff 0 * x ^ 0 + cos_coeff 1 * x ^ 1 + cos_coeff 2 * x ^ 2 + cos_coeff 3 * x ^ 3"
    by (simp add: eval_nat_numeral)
  then have s: "(\<Sum>m<4. cos_coeff m * x ^ m) = 1 - x ^ 2 / 2"
    by (simp add: cos_coeff_values)
  have "\<bar>cos x - (1 - x ^ 2 / 2)\<bar> = \<bar>cos (t + 1/2 * real 4 * pi)\<bar> * (\<bar>x\<bar> ^ 4 / 24)"
    unfolding c s by (simp add: abs_mult power_abs fact_numeral)
  also have "\<dots> \<le> 1 * (\<bar>x\<bar> ^ 4 / 24)"
    by (rule mult_right_mono) simp_all
  finally show ?thesis by simp
qed

lemma pi_upper: "pi \<le> 315 / 100"
proof -
  define t where "t = pi / 6"
  have t0: "0 \<le> t" by (simp add: t_def)
  have s: "sin t = 1 / 2" by (simp add: t_def sin_30)
  from sin_taylor3 [of t] s t0 have step: "t \<le> 1 / 2 + t ^ 3 / 6"
    by (simp add: abs_if split: if_splits)
  have u0: "t \<le> 2 / 3" using pi_less_4 by (simp add: t_def)
  have "t ^ 3 \<le> (2 / 3) ^ 3" by (rule power_mono [OF u0 t0])
  with step have u1: "t \<le> 55 / 100" by (simp add: power3_eq_cube)
  have "t ^ 3 \<le> (55 / 100) ^ 3" by (rule power_mono [OF u1 t0])
  with step have u2: "t \<le> 528 / 1000" by (simp add: power3_eq_cube)
  have "t ^ 3 \<le> (528 / 1000) ^ 3" by (rule power_mono [OF u2 t0])
  with step have u3: "t \<le> 525 / 1000" by (simp add: power3_eq_cube)
  then show ?thesis by (simp add: t_def)
qed

lemma pi_lower: "312 / 100 \<le> pi"
proof -
  define t where "t = pi / 6"
  have t0: "0 \<le> t" by (simp add: t_def)
  have s: "sin t = 1 / 2" by (simp add: t_def sin_30)
  have u: "t \<le> 2 / 3" using pi_less_4 by (simp add: t_def)
  have "t ^ 5 \<le> (2 / 3) ^ 5" by (rule power_mono [OF u t0])
  then have t5: "t ^ 5 \<le> 32 / 243" by (simp add: power_divide)
  from sin_taylor5 [of t] s t0 have "1 / 2 \<le> t - t ^ 3 / 6 + t ^ 5 / 120"
    by (simp add: abs_if split: if_splits)
  with t5 have step: "1 / 2 + t ^ 3 / 6 - 12 / 10000 \<le> t" by linarith
  have "0 \<le> t ^ 3" using t0 by simp
  with step have l0: "498 / 1000 \<le> t" by linarith
  have "(498 / 1000) ^ 3 \<le> t ^ 3" by (rule power_mono [OF l0]) simp
  moreover have "(123 / 1000 :: real) \<le> (498 / 1000) ^ 3" by (simp add: power3_eq_cube)
  ultimately have l1: "519 / 1000 \<le> t" using step by linarith
  have "(519 / 1000) ^ 3 \<le> t ^ 3" by (rule power_mono [OF l1]) simp
  moreover have "(1397 / 10000 :: real) \<le> (519 / 1000) ^ 3" by (simp add: power3_eq_cube)
  ultimately have l2: "52 / 100 \<le> t" using step by linarith
  then show ?thesis by (simp add: t_def)
qed

lemma theta_script_bounds: "156 / 1000 \<le> theta_script" "theta_script \<le> 1575 / 10000"
  using pi_lower pi_upper by (simp_all add: theta_script_def)

lemma theta_script_powers:
  "243 / 10000 \<le> theta_script ^ 2" "theta_script ^ 2 \<le> 249 / 10000"
  "379 / 100000 \<le> theta_script ^ 3" "theta_script ^ 3 \<le> 391 / 100000"
  "0 \<le> theta_script ^ 4" "theta_script ^ 4 \<le> 62 / 100000"
  "0 \<le> theta_script ^ 5" "theta_script ^ 5 \<le> 1 / 10000"
proof -
  note l = theta_script_bounds(1) and u = theta_script_bounds(2)
  have t0: "0 \<le> theta_script" using l by simp
  have "(156 / 1000) ^ 2 \<le> theta_script ^ 2" by (rule power_mono [OF l]) simp
  then show "243 / 10000 \<le> theta_script ^ 2" by (simp add: power2_eq_square)
  have "theta_script ^ 2 \<le> (1575 / 10000) ^ 2" by (rule power_mono [OF u t0])
  then show "theta_script ^ 2 \<le> 249 / 10000" by (simp add: power2_eq_square)
  have "(156 / 1000) ^ 3 \<le> theta_script ^ 3" by (rule power_mono [OF l]) simp
  then show "379 / 100000 \<le> theta_script ^ 3" by (simp add: power3_eq_cube)
  have "theta_script ^ 3 \<le> (1575 / 10000) ^ 3" by (rule power_mono [OF u t0])
  then show "theta_script ^ 3 \<le> 391 / 100000" by (simp add: power3_eq_cube)
  show "0 \<le> theta_script ^ 4" "0 \<le> theta_script ^ 5" using t0 by simp_all
  have "theta_script ^ 4 \<le> (1575 / 10000) ^ 4" by (rule power_mono [OF u t0])
  then show "theta_script ^ 4 \<le> 62 / 100000" by (simp add: power4_eq_xxxx)
  have "theta_script ^ 5 \<le> (1575 / 10000) ^ 5" by (rule power_mono [OF u t0])
  moreover have "((1575 / 10000) ^ 5 :: real) \<le> 1 / 10000" by (simp add: power_divide)
  ultimately show "theta_script ^ 5 \<le> 1 / 10000" by linarith
qed

lemma sin_theta_script: "155 / 1000 \<le> sin theta_script" "sin theta_script \<le> 157 / 1000"
proof -
  have t0: "0 \<le> theta_script" using theta_script_bounds(1) by simp
  from sin_taylor5 [of theta_script] t0
  have "\<bar>sin theta_script - (theta_script - theta_script ^ 3 / 6)\<bar> \<le> theta_script ^ 5 / 120"
    by simp
  with theta_script_bounds theta_script_powers
  show "155 / 1000 \<le> sin theta_script" "sin theta_script \<le> 157 / 1000"
    by linarith+
qed

lemma cos_theta_script: "9875 / 10000 \<le> cos theta_script" "cos theta_script \<le> 9879 / 10000"
proof -
  have t0: "0 \<le> theta_script" using theta_script_bounds(1) by simp
  from cos_taylor4 [of theta_script] t0
  have "\<bar>cos theta_script - (1 - theta_script ^ 2 / 2)\<bar> \<le> theta_script ^ 4 / 24"
    by simp
  with theta_script_powers
  show "9875 / 10000 \<le> cos theta_script" "cos theta_script \<le> 9879 / 10000"
    by linarith+
qed

section \<open>The rotation matrix\<close>

text \<open>
  C4. For every angle \<open>theta\<close>, \<open>RotationAboutY theta\<close> is the four-by-four matrix with
  rows \<open>[cos theta, 0, sin theta, 0]\<close>, \<open>[0, 1, 0, 0]\<close>, \<open>[- sin theta, 0, cos theta, 0]\<close>
  and \<open>[0, 0, 0, 1]\<close>: the right-handed rotation about the y-axis in homogeneous
  coordinates.
\<close>

theorem RotationAboutY_matrix:
  "RotationAboutY theta =
     [[cos theta, 0, sin theta, 0], [0, 1, 0, 0], [- sin theta, 0, cos theta, 0], [0, 0, 0, 1]]
   \<and> has_shape 4 4 (RotationAboutY theta)"
  by (simp add: RotationAboutY_def has_shape_def)

theorem RotationAboutY_matrix_witness:
  "RotationAboutY 0 = [[1, 0, 0, 0], [0, 1, 0, 0], [0, 0, 1, 0], [0, 0, 0, 1]]"
  using RotationAboutY_matrix [of 0] by simp

text \<open>
  C10. For every angle \<open>theta\<close>, \<open>RotationAboutY theta\<close> is a rigid transform: its
  upper-left block is orthonormal with determinant one, its last row and its last column
  are \<open>[0, 0, 0, 1]\<close>, and it is invertible, with the inverse \<open>RotationAboutY (- theta)\<close>,
  which is also what \<open>np.linalg.inv\<close> returns for it.
\<close>

theorem RotationAboutY_is_rigid:
  "rigid_pose (RotationAboutY theta)
   \<and> det (rotation_block (RotationAboutY theta)) = 1
   \<and> RotationAboutY theta ! 3 = [0, 0, 0, 1]
   \<and> column 3 (RotationAboutY theta) = [0, 0, 0, 1]
   \<and> linalg_inv (RotationAboutY theta) = Inr (RotationAboutY (- theta))
   \<and> mat_mul (RotationAboutY theta) (RotationAboutY (- theta)) = identity4
   \<and> mat_mul (RotationAboutY (- theta)) (RotationAboutY theta) = identity4"
proof -
  have cs: "cos theta * cos theta + sin theta * sin theta = 1"
    using sin_cos_squared_add3 [of theta] by (simp add: add.commute)
  have sc: "sin theta * sin theta + cos theta * cos theta = 1"
    using cs by (simp add: add.commute)
  have 1: "rigid_pose (RotationAboutY theta)"
    by (simp add: rigid_pose_def RotationAboutY_def has_shape_def rotation_block_def
        identity3_def mat_simps cs sc)
  have b: "rotation_block (RotationAboutY theta) =
      [[cos theta, 0, sin theta], [0, 1, 0], [- sin theta, 0, cos theta]]"
    by (simp add: RotationAboutY_def rotation_block_def)
  have 2: "det (rotation_block (RotationAboutY theta)) = 1"
    unfolding b det3 by (simp add: cs)
  have 3: "RotationAboutY theta ! 3 = [0, 0, 0, 1]" "column 3 (RotationAboutY theta) = [0, 0, 0, 1]"
    by (simp_all add: RotationAboutY_def column_def)
  have 4: "linalg_inv (RotationAboutY theta) = Inr (RotationAboutY (- theta))"
    using RotationAboutY_shape [of theta]
    by (simp add: linalg_inv_def det_RotationAboutY mat_inverse_RotationAboutY has_shape_def)
  have 5: "mat_mul (RotationAboutY theta) (RotationAboutY (- theta)) = identity4"
    "mat_mul (RotationAboutY (- theta)) (RotationAboutY theta) = identity4"
    by (simp_all add: RotationAboutY_add RotationAboutY_zero)
  from 1 2 3 4 5 show ?thesis by simp
qed

theorem RotationAboutY_is_rigid_witness:
  "rigid_pose (RotationAboutY pi)
   \<and> linalg_inv (RotationAboutY pi) = Inr (RotationAboutY (- pi))
   \<and> RotationAboutY pi = [[- 1, 0, 0, 0], [0, 1, 0, 0], [0, 0, - 1, 0], [0, 0, 0, 1]]"
  using RotationAboutY_is_rigid [of pi] by (simp add: RotationAboutY_def)

section \<open>The rotation about the local axis\<close>

text \<open>
  C1. For every three-by-one point \<open>p\<close>, every angle and every invertible
  four-by-four pose \<open>T_01\<close> (one whose determinant is not zero), \<open>getNewPosition_yellowPoint p angle T_01\<close> returns what
  the conjugation pipeline gives: the point in homogeneous coordinates, multiplied by the
  pose times the rotation times the inverse of the pose, and its first three components
  divided by the fourth. The pipeline read as three steps on the point (to the local
  frame, rotate, back to the global frame) gives the same.
\<close>

theorem getNewPosition_is_conjugation:
  assumes "has_shape 3 1 p" and "has_shape 4 4 T_01" and "det T_01 \<noteq> 0"
  shows "getNewPosition_yellowPoint p angle T_01 = Inr (conjugation_pipeline p angle T_01)
       \<and> getNewPosition_yellowPoint p angle T_01 = Inr (rotate_about_local_y p angle T_01)"
proof -
  let ?X = "mat_inverse T_01" and ?R = "RotationAboutY angle" and ?v = "to_homogeneous p"
  note sX = mat_inverse_shape44 [OF assms(2)]
  note sR = RotationAboutY_shape [of angle]
  note sv = to_homogeneous_shape [OF assms(1)]
  have 1: "getNewPosition_yellowPoint p angle T_01 = Inr (conjugation_pipeline p angle T_01)"
    by (simp add: getNewPosition_yellowPoint_eq [OF assms] conjugation_pipeline_def T_Motion_def)
  have "mat_mul (T_Motion T_01 angle) ?v = mat_mul (mat_mul T_01 ?R) (mat_mul ?X ?v)"
    unfolding T_Motion_def
    by (rule mat_mul_assoc441 [OF mat_mul_shape44 [OF assms(2) sR] sX sv])
  also have "\<dots> = mat_mul T_01 (mat_mul ?R (mat_mul ?X ?v))"
    by (rule mat_mul_assoc441 [OF assms(2) sR mat_mul_shape41 [OF sX sv]])
  finally have "conjugation_pipeline p angle T_01 = rotate_about_local_y p angle T_01"
    by (simp add: conjugation_pipeline_def rotate_about_local_y_def)
  with 1 show ?thesis by simp
qed

theorem getNewPosition_is_conjugation_witness:
  "has_shape 3 1 p_start \<and> has_shape 4 4 T_01_script \<and> det T_01_script \<noteq> 0
   \<and> getNewPosition_yellowPoint p_start 0 T_01_script = Inr (conjugation_pipeline p_start 0 T_01_script)
   \<and> conjugation_pipeline p_start 0 T_01_script = Finite p_start"
proof -
  have d: "det T_01_script \<noteq> 0" by (simp add: T_01_script_det)
  note c = getNewPosition_is_conjugation [OF p_start_shape T_01_script_shape d, of 0]
  from c script_step [of 0]
  have "conjugation_pipeline p_start 0 T_01_script = Finite [[10 * cos 0 - 40], [- 10], [- 10 * sin 0 - 20]]"
    by simp
  then have "conjugation_pipeline p_start 0 T_01_script = Finite p_start"
    by (simp add: p_start_def)
  with c d p_start_shape T_01_script_shape show ?thesis by simp
qed

text \<open>
  C5. For every rigid pose and every three-by-one point, the fourth component of the
  pose times the rotation times the inverse of the pose, applied to the homogeneous
  point, is one; so the division at the end of \<open>getNewPosition_yellowPoint\<close> is by one,
  never by zero, and the call returns the first three components as they are.
\<close>

theorem homogeneous_component_is_one:
  assumes "rigid_pose T_01" and "has_shape 3 1 p"
  shows "mat_mul (T_Motion T_01 angle) (to_homogeneous p) ! 3 = [1]
       \<and> getNewPosition_yellowPoint p angle T_01 =
           Inr (Finite (take 3 (mat_mul (T_Motion T_01 angle) (to_homogeneous p))))"
proof -
  note a = rigid_affine [OF assms(1)] and d = rigid_det [OF assms(1)]
  have "mat_mul (T_Motion T_01 angle) (to_homogeneous p) ! 3 = [1]"
    by (rule affine_apply(1) [OF T_Motion_affine [OF a d] assms(2)])
  moreover have "getNewPosition_yellowPoint p angle T_01 =
      Inr (Finite (take 3 (mat_mul (T_Motion T_01 angle) (to_homogeneous p))))"
    using getNewPosition_affine [OF a d assms(2), of angle] by (simp add: apply_motion_def)
  ultimately show ?thesis by simp
qed

theorem homogeneous_component_is_one_witness:
  "rigid_pose T_01_script \<and> has_shape 3 1 p_start
   \<and> mat_mul (T_Motion T_01_script pi) (to_homogeneous p_start) ! 3 = [1]
   \<and> getNewPosition_yellowPoint p_start pi T_01_script = Inr (Finite [[- 50], [- 10], [- 20]])"
  using homogeneous_component_is_one [OF T_01_script_rigid p_start_shape, of pi]
    script_step [of pi] T_01_script_rigid p_start_shape
  by simp

text \<open>
  C6. For every rigid pose \<open>T\<close> and every three-by-one point \<open>p\<close>, the rotation by the
  angle zero returns \<open>p\<close>.
\<close>

theorem rotation_by_zero_is_identity:
  assumes "rigid_pose T" and "has_shape 3 1 p"
  shows "getNewPosition_yellowPoint p 0 T = Inr (Finite p)"
  using loop_func_affine [OF rigid_affine [OF assms(1)] rigid_det [OF assms(1)] assms(2), of 0 0]
    getNewPosition_affine [OF rigid_affine [OF assms(1)] rigid_det [OF assms(1)] assms(2), of 0]
  by simp

theorem rotation_by_zero_is_identity_witness:
  "rigid_pose T_01_script \<and> has_shape 3 1 p_start
   \<and> getNewPosition_yellowPoint p_start 0 T_01_script = Inr (Finite p_start)"
  using rotation_by_zero_is_identity [OF T_01_script_rigid p_start_shape]
    T_01_script_rigid p_start_shape
  by simp

text \<open>
  C7. For every rigid pose \<open>T\<close>, every three-by-one point \<open>p\<close> and every angle
  \<open>theta\<close>, rotating by \<open>theta\<close> and then rotating the result by \<open>- theta\<close> returns \<open>p\<close>.
  Over the reals the two are equal; the tolerance of the claim is for the rounding of
  floats.
\<close>

theorem rotate_there_and_back:
  assumes "rigid_pose T" and "has_shape 3 1 p"
  shows "and_then (getNewPosition_yellowPoint p theta T)
           (\<lambda>r. case r of Finite p' \<Rightarrow> getNewPosition_yellowPoint p' (- theta) T
                          | NonFinite \<Rightarrow> Inr NonFinite)
         = Inr (Finite p)"
proof -
  note a = rigid_affine [OF assms(1)] and d = rigid_det [OF assms(1)]
  have s: "has_shape 4 4 T" using a by (simp add: affine_pose_def)
  let ?M = "T_Motion T theta" and ?N = "T_Motion T (- theta)"
  let ?p' = "apply_motion ?M p"
  note aM = T_Motion_affine [OF a d, of theta]
  have sp': "has_shape 3 1 ?p'" by (rule affine_apply(4) [OF aM assms(2)])
  have 1: "getNewPosition_yellowPoint p theta T = Inr (Finite ?p')"
    by (rule getNewPosition_affine [OF a d assms(2)])
  have "getNewPosition_yellowPoint ?p' (- theta) T = Inr (Finite (apply_motion ?N ?p'))"
    by (rule getNewPosition_affine [OF a d sp'])
  also have "apply_motion ?N ?p' = take 3 (mat_mul ?N (mat_mul ?M (to_homogeneous p)))"
    by (simp add: apply_motion_def [of ?N] affine_apply(3) [OF aM assms(2)])
  also have "mat_mul ?N (mat_mul ?M (to_homogeneous p)) = mat_mul (mat_mul ?N ?M) (to_homogeneous p)"
    by (rule mat_mul_assoc441 [OF T_Motion_shape [OF s] T_Motion_shape [OF s]
          to_homogeneous_shape [OF assms(2)], symmetric])
  also have "mat_mul ?N ?M = identity4"
    by (simp add: T_Motion_add [OF s d] T_Motion_zero [OF s d])
  also have "mat_mul identity4 (to_homogeneous p) = to_homogeneous p"
    by (rule mat_mul_identity4_vec [OF to_homogeneous_shape [OF assms(2)]])
  also have "take 3 (to_homogeneous p) = p"
    using assms(2) by (simp add: to_homogeneous_def has_shape_def)
  finally show ?thesis by (simp add: 1 and_then_def)
qed

theorem rotate_there_and_back_witness:
  "rigid_pose T_01_script \<and> has_shape 3 1 p_start
   \<and> getNewPosition_yellowPoint p_start pi T_01_script = Inr (Finite [[- 50], [- 10], [- 20]])
   \<and> getNewPosition_yellowPoint [[- 50], [- 10], [- 20]] (- pi) T_01_script = Inr (Finite p_start)"
  using rotate_there_and_back [OF T_01_script_rigid p_start_shape, of pi]
    script_step [of pi] T_01_script_rigid p_start_shape
  by (simp add: and_then_def)

text \<open>
  C8. For every rigid pose \<open>T\<close>, three-by-one point \<open>p\<close>, angle \<open>theta\<close> and number
  \<open>n\<close>, \<open>n\<close> ticks of the callback with the step \<open>theta\<close> give what one rotation by
  \<open>n * theta\<close> gives, and what one rotation by \<open>n * theta\<close> plus any whole multiple of
  \<open>2 * pi\<close> gives. Over the reals the two are equal; the tolerance of the claim is for
  the rounding of floats.
\<close>

theorem loop_func_composes_rotations:
  assumes "rigid_pose T" and "has_shape 3 1 p"
  shows "loop_func n theta T p = getNewPosition_yellowPoint p (real n * theta) T
       \<and> loop_func n theta T p =
           getNewPosition_yellowPoint p (real n * theta + 2 * pi * of_int k) T"
proof -
  note a = rigid_affine [OF assms(1)] and d = rigid_det [OF assms(1)]
  have "T_Motion T (real n * theta + 2 * pi * of_int k) = T_Motion T (real n * theta)"
    by (simp add: T_Motion_def RotationAboutY_periodic)
  then show ?thesis
    by (simp add: loop_func_affine [OF a d assms(2)] getNewPosition_affine [OF a d assms(2)])
qed

theorem loop_func_composes_rotations_witness:
  "rigid_pose T_01_script \<and> has_shape 3 1 p_start
   \<and> loop_func 2 (pi / 2) T_01_script p_start = Inr (Finite [[- 50], [- 10], [- 20]])
   \<and> getNewPosition_yellowPoint p_start (2 * (pi / 2) + 2 * pi * 0) T_01_script
       = Inr (Finite [[- 50], [- 10], [- 20]])"
  using loop_func_composes_rotations [OF T_01_script_rigid p_start_shape, of 2 "pi / 2" 0]
    script_step [of pi] T_01_script_rigid p_start_shape
  by simp

text \<open>
  C9. When the pose is the identity matrix, \<open>getNewPosition_yellowPoint p theta\<close> is the
  rotation matrix about the y-axis applied to \<open>p\<close>: the three-by-three block of
  \<open>RotationAboutY theta\<close> times \<open>p\<close>, which is also the first three components of
  \<open>RotationAboutY theta\<close> times the homogeneous point.
\<close>

theorem identity_pose_is_plain_rotation:
  assumes "has_shape 3 1 p"
  shows "getNewPosition_yellowPoint p theta identity4 =
           Inr (Finite (mat_mul (rotation_block (RotationAboutY theta)) p))
       \<and> getNewPosition_yellowPoint p theta identity4 =
           Inr (Finite (take 3 (mat_mul (RotationAboutY theta) (to_homogeneous p))))"
proof -
  have s: "has_shape 4 4 identity4" by (simp add: identity4_def has_shape_def)
  have a: "affine_pose identity4" by (simp add: affine_pose_def identity4_def has_shape_def)
  have d1: "det identity4 = 1" unfolding identity4_def det4 det3 by simp
  then have d: "det identity4 \<noteq> 0" by simp
  note sR = RotationAboutY_shape [of theta]
  have "mat_mul identity4 (mat_inverse identity4) = identity4"
    by (rule mat_mul_mat_inverse [OF s d])
  then have i: "mat_inverse identity4 = identity4"
    by (simp add: mat_mul_identity4_left [OF mat_inverse_shape44 [OF s]])
  have M: "T_Motion identity4 theta = RotationAboutY theta"
    unfolding T_Motion_def i
    by (simp add: mat_mul_identity4_left [OF sR] mat_mul_identity4_right [OF sR])
  from shape31_cases [OF assms] obtain x y z where p: "p = [[x], [y], [z]]" by blast
  have "take 3 (mat_mul (RotationAboutY theta) (to_homogeneous p)) =
      mat_mul (rotation_block (RotationAboutY theta)) p"
    unfolding p by (simp add: RotationAboutY_def rotation_block_def to_homogeneous_def mat_simps)
  then show ?thesis
    by (simp add: getNewPosition_affine [OF a d assms] M apply_motion_def)
qed

theorem identity_pose_is_plain_rotation_witness:
  "has_shape 3 1 p_start
   \<and> getNewPosition_yellowPoint p_start (pi / 2) identity4 = Inr (Finite [[- 20], [- 10], [30]])"
proof -
  have "mat_mul (rotation_block (RotationAboutY (pi / 2))) p_start = [[- 20], [- 10], [30]]"
    by (simp add: RotationAboutY_def rotation_block_def p_start_def mat_simps)
  with identity_pose_is_plain_rotation [OF p_start_shape, of "pi / 2"] p_start_shape
  show ?thesis by simp
qed

section \<open>Failures\<close>

text \<open>
  C3, as the claim states it, fails: a pose that is not rigid but is invertible does not
  make \<open>getNewPosition_yellowPoint\<close> fail. The pose that scales by two is such a pose,
  and the call returns.
\<close>

theorem non_rigid_pose_returns_counterexample:
  "\<not> rigid_pose scaling_pose
   \<and> getNewPosition_yellowPoint p_start 0 scaling_pose = Inr (Finite p_start)"
  using scaling_pose_not_rigid scaling_pose_step by simp

text \<open>
  C3, amended. For a three-by-one point and a four-by-four pose,
  \<open>getNewPosition_yellowPoint\<close> fails exactly when the pose is singular (its
  determinant is zero, that is, it has no inverse), with the LinAlgError of
  \<open>np.linalg.inv\<close>; for every invertible pose, rigid or not, it returns what the
  conjugation pipeline gives. There is no check of rigidity and no other failure.
\<close>

theorem fails_iff_singular:
  assumes "has_shape 3 1 p" and "has_shape 4 4 T_01"
  shows "getNewPosition_yellowPoint p angle T_01 =
     (if det T_01 = 0 then Inl LinAlgError else Inr (conjugation_pipeline p angle T_01))
   \<and> (det T_01 = 0) = (\<not> (\<exists>X. has_shape 4 4 X \<and> mat_mul T_01 X = identity4))"
proof -
  have "getNewPosition_yellowPoint p angle T_01 =
     (if det T_01 = 0 then Inl LinAlgError else Inr (conjugation_pipeline p angle T_01))"
  proof (cases "det T_01 = 0")
    case True
    have "np_block p = Inr (to_homogeneous p)"
      using assms(1) by (simp add: np_block_def has_shape_def to_homogeneous_def)
    moreover have "linalg_inv T_01 = Inl LinAlgError"
      using True by (simp add: linalg_inv_def)
    ultimately show ?thesis
      using True by (simp add: getNewPosition_yellowPoint_def and_then_def)
  next
    case False
    then show ?thesis
      by (simp add: getNewPosition_yellowPoint_eq [OF assms False] conjugation_pipeline_def
          T_Motion_def)
  qed
  with det_zero_iff_no_inverse [OF assms(2)] show ?thesis by simp
qed

theorem fails_iff_singular_witness:
  "has_shape 3 1 p_start \<and> has_shape 4 4 zero_pose
   \<and> getNewPosition_yellowPoint p_start theta_script zero_pose = Inl LinAlgError"
proof -
  have s: "has_shape 4 4 zero_pose" by (simp add: zero_pose_def has_shape_def)
  from fails_iff_singular [OF p_start_shape s, of theta_script] p_start_shape s
  show ?thesis by (simp add: zero_pose_det)
qed

section \<open>The first tick of the script\<close>

text \<open>
  C2, as the claim states it, fails: with the pose, the point and the step of the
  script, the position that \<open>getNewPosition_yellowPoint\<close> returns is not within four
  units of \<open>(-36.9, -10.0, -17.0)\<close>.
\<close>

theorem script_first_tick_counterexample:
  "\<not> within_tol 4 [[- 369 / 10], [- 10], [- 17]]
       (getNewPosition_yellowPoint p_start theta_script T_01_script)"
  using cos_theta_script(1)
  by (simp add: script_step within_tol_def)

text \<open>
  C2, amended. With the pose of the script (identity orientation, origin
  \<open>(-40, 0, -20)\<close>), the point \<open>(-30, -10, -20)\<close> and the angle \<open>pi / 20\<close>,
  \<open>getNewPosition_yellowPoint\<close> returns
  \<open>(10 * cos (pi / 20) - 40, -10, - 10 * sin (pi / 20) - 20)\<close>, the value of the
  conjugation formula, which is \<open>(-30.12, -10, -21.56)\<close> to within one hundredth.
\<close>

theorem script_first_tick:
  "getNewPosition_yellowPoint p_start theta_script T_01_script =
     Inr (Finite [[10 * cos (pi / 20) - 40], [- 10], [- 10 * sin (pi / 20) - 20]])
   \<and> within_tol (1 / 100) [[- 3012 / 100], [- 10], [- 2156 / 100]]
       (getNewPosition_yellowPoint p_start theta_script T_01_script)"
proof -
  have "within_tol (1 / 100) [[- 3012 / 100], [- 10], [- 2156 / 100]]
       (getNewPosition_yellowPoint p_start theta_script T_01_script)"
  proof -
    have "\<bar>(10 * cos theta_script - 40) - (- 3012 / 100)\<bar> \<le> 1 / 100"
      using cos_theta_script by (intro abs_leI) linarith+
    moreover have "\<bar>(- 10 * sin theta_script - 20) - (- 2156 / 100)\<bar> \<le> 1 / 100"
      using sin_theta_script by (intro abs_leI) linarith+
    ultimately show ?thesis
      by (simp add: script_step within_tol_def)
  qed
  moreover have "getNewPosition_yellowPoint p_start theta_script T_01_script =
     Inr (Finite [[10 * cos (pi / 20) - 40], [- 10], [- 10 * sin (pi / 20) - 20]])"
    unfolding script_step by (simp add: theta_script_def)
  ultimately show ?thesis by simp
qed

end
